theory Spec2Isabelle
  imports Complex_Main "HOL-Library.Multiset"
begin

section \<open>Conventions of the embedding\<close>

text \<open>
  The program is \<^verbatim>\<open>src/ppo.py\<close>: a rollout buffer (\<^verbatim>\<open>PPOMemory\<close>), an actor and a
  critic network, and the \<^verbatim>\<open>Agent\<close> that samples actions and runs the PPO update.

  \<^item> Tensors and numpy arrays of numbers are lists over \<^typ>\<open>real\<close>: arithmetic is exact,
    and rounding and overflow of 32-bit floats are outside this model. The reward
    statistics of the agent, which the source tests for NaN and Inf, are values of a
    type \<open>fval\<close> that has these special values beside the finite numbers.
  \<^item> An exception of the source is the \<open>Inl\<close> branch of a result \<open>error + 'a\<close>; an
    operation that raises returns the error only.
  \<^item> Mutation of \<^verbatim>\<open>self\<close> is state passing: an operation returns the updated record.
  \<^item> Randomness is injected: \<^verbatim>\<open>np.random.shuffle\<close> and \<^verbatim>\<open>dist.sample()\<close> are
    arguments of the functions that call them.
  \<^item> The primitives of the tensor library that differentiate a loss and move the
    parameters (\<^verbatim>\<open>backward\<close>, \<^verbatim>\<open>clip_grad_norm_\<close>, \<^verbatim>\<open>optimiser.step\<close>) are one
    argument \<open>opt\<close> of \<open>learn\<close>.
\<close>

datatype error = ZeroDivisionError | IndexError | AssertionError

type_synonym vec = "real list"
type_synonym matrix = "real list list"

section \<open>The rollout buffer: class PPOMemory\<close>

text \<open>
  Six parallel Python lists and the minibatch size. An entry of \<open>probs\<close> is the
  one-element log-probability array that \<^verbatim>\<open>choose_action\<close> returns, kept as its single
  number. \<open>batch_size\<close> is a natural number; \<open>0\<close> is kept, as \<^verbatim>\<open>np.arange\<close> refuses it.
\<close>

record PPOMemory =
  states :: "vec list"
  probs :: "real list"
  vals :: "real list"
  actions :: "vec list"
  rewards :: "real list"
  dones :: "bool list"
  batch_size :: nat

definition PPOMemory_init :: "nat \<Rightarrow> PPOMemory" where
  "PPOMemory_init b =
     \<lparr>states = [], probs = [], vals = [], actions = [], rewards = [], dones = [],
      batch_size = b\<rparr>"

text \<open>
  \<^verbatim>\<open>np.arange(start, stop, step)\<close> for a positive step: \<open>start, start + step, ...\<close> while
  below \<open>stop\<close>. A zero step raises.
\<close>

function arange_from :: "nat \<Rightarrow> nat \<Rightarrow> nat \<Rightarrow> nat list" where
  "arange_from i stop step =
     (if 0 < step \<and> i < stop then i # arange_from (i + step) stop step else [])"
  by pat_completeness auto
termination
  by (relation "measure (\<lambda>(i, stop, step). stop - i)") auto

definition arange :: "nat \<Rightarrow> nat \<Rightarrow> nat \<Rightarrow> error + nat list" where
  "arange start stop step =
     (if step = 0 then Inl ZeroDivisionError else Inr (arange_from start stop step))"

text \<open>
  \<^verbatim>\<open>generate_batches\<close>. The argument \<open>shuffle\<close> is the effect of \<^verbatim>\<open>np.random.shuffle\<close> on
  the index array of this call; \<^verbatim>\<open>indices[i:i + batch_size]\<close> is \<open>take\<close> after \<open>drop\<close>.
\<close>

definition generate_batches ::
  "PPOMemory \<Rightarrow> (nat list \<Rightarrow> nat list) \<Rightarrow>
   error + (vec list \<times> vec list \<times> real list \<times> real list \<times> real list \<times> bool list \<times> nat list list)"
where
  "generate_batches mem shuffle =
     (let n_states = length (states mem) in
      case arange 0 n_states (batch_size mem) of
        Inl e \<Rightarrow> Inl e
      | Inr batch_start \<Rightarrow>
          (let indices = shuffle [0..<n_states];
               batches = map (\<lambda>i. take (batch_size mem) (drop i indices)) batch_start
           in Inr (states mem, actions mem, probs mem, vals mem, rewards mem, dones mem,
                   batches)))"

definition store_memory ::
  "PPOMemory \<Rightarrow> vec \<Rightarrow> vec \<Rightarrow> real \<Rightarrow> real \<Rightarrow> real \<Rightarrow> bool \<Rightarrow> PPOMemory"
where
  "store_memory mem state action prob val reward done =
     mem\<lparr>states := states mem @ [state],
         actions := actions mem @ [action],
         probs := probs mem @ [prob],
         vals := vals mem @ [val],
         rewards := rewards mem @ [reward],
         dones := dones mem @ [done]\<rparr>"

definition clear_memory :: "PPOMemory \<Rightarrow> PPOMemory" where
  "clear_memory mem =
     mem\<lparr>states := [], probs := [], actions := [], rewards := [], dones := [], vals := []\<rparr>"

section \<open>The networks: classes ActorNetwork and CriticNetwork\<close>

text \<open>
  A layer \<^verbatim>\<open>nn.Linear\<close> is its weight matrix (one row per output) and its bias;
  \<^verbatim>\<open>nn.Sequential\<close> is composition. Layer dimensions are taken to fit their inputs: the
  shape errors of the tensor library are outside the model. The critic's last layer has
  one output, so it is one weight row and one bias. The optimiser object (Adam) of each
  network is a value of an arbitrary type \<open>'o\<close>.
\<close>

type_synonym linear = "matrix \<times> vec"

definition Linear :: "linear \<Rightarrow> vec \<Rightarrow> vec" where
  "Linear layer x =
     map (\<lambda>(row, bi). sum_list (map (\<lambda>(w, xi). w * xi) (zip row x)) + bi)
       (zip (fst layer) (snd layer))"

definition ReLU :: "vec \<Rightarrow> vec" where
  "ReLU x = map (max 0) x"

record 'o ActorNetwork =
  actor_fc1 :: linear
  actor_fc2 :: linear
  mean_layer :: linear
  log_std :: vec
  actor_optimiser :: 'o

record 'o CriticNetwork =
  critic_fc1 :: linear
  critic_fc2 :: linear
  critic_out :: "vec \<times> real"
  critic_optimiser :: 'o

definition forward :: "'o ActorNetwork \<Rightarrow> vec \<Rightarrow> vec \<times> vec" where
  "forward net state =
     (let features = ReLU (Linear (actor_fc2 net) (ReLU (Linear (actor_fc1 net) state)));
          mean = Linear (mean_layer net) features;
          std = map exp (log_std net)
      in (mean, std))"

definition critic_forward :: "'o CriticNetwork \<Rightarrow> vec \<Rightarrow> real" where
  "critic_forward net state =
     (let h = ReLU (Linear (critic_fc2 net) (ReLU (Linear (critic_fc1 net) state)))
      in sum_list (map (\<lambda>(w, xi). w * xi) (zip (fst (critic_out net)) h))
         + snd (critic_out net))"

subsection \<open>The diagonal Normal distribution of the tensor library\<close>

text \<open>
  \<^verbatim>\<open>Normal(loc, scale)\<close> with its \<^verbatim>\<open>log_prob\<close> and \<^verbatim>\<open>entropy\<close>, one entry per action
  dimension.
\<close>

record Normal =
  loc :: vec
  scale :: vec

definition normal_log_pdf :: "real \<Rightarrow> real \<Rightarrow> real \<Rightarrow> real" where
  "normal_log_pdf m s x = - ((x - m)\<^sup>2) / (2 * s\<^sup>2) - ln s - ln (sqrt (2 * pi))"

definition log_prob :: "Normal \<Rightarrow> vec \<Rightarrow> vec" where
  "log_prob distr x =
     map (\<lambda>(m, s, v). normal_log_pdf m s v) (zip (loc distr) (zip (scale distr) x))"

definition entropy :: "Normal \<Rightarrow> vec" where
  "entropy distr = map (\<lambda>s. 1 / 2 + 1 / 2 * ln (2 * pi) + ln s) (scale distr)"

definition clamp_min :: "vec \<Rightarrow> real \<Rightarrow> vec" where
  "clamp_min x lo = map (max lo) x"

definition clamp :: "real \<Rightarrow> real \<Rightarrow> real \<Rightarrow> real" where
  "clamp x lo hi = min (max x lo) hi"

subsection \<open>ActorNetwork.sample_normal\<close>

text \<open>
  The argument \<open>sample\<close> is the draw of \<^verbatim>\<open>dist.sample()\<close> for the given location and
  scale. The source rebinds \<^verbatim>\<open>action\<close> to the squashed value before it calls
  \<^verbatim>\<open>dist.log_prob(action)\<close>; the two \<open>let\<close> bindings of \<open>action\<close> below do the same.
  \<^verbatim>\<open>sum(dim=-1, keepdim=True)\<close> of a one-dimensional tensor is a one-element tensor,
  kept as its number.
\<close>

definition sample_normal ::
  "'o ActorNetwork \<Rightarrow> (vec \<Rightarrow> vec \<Rightarrow> vec) \<Rightarrow> vec \<Rightarrow> vec \<times> real \<times> Normal"
where
  "sample_normal net sample state =
     (let (mean, std) = forward net state;
          std = clamp_min std (1 / 10 ^ 6);
          distr = \<lparr>loc = mean, scale = std\<rparr>;
          action = sample (loc distr) (scale distr);
          action = map (\<lambda>a. 2 * tanh a) action;
          lp = sum_list (log_prob distr action)
      in (action, lp, distr))"

section \<open>Scalars that may be NaN or infinite\<close>

text \<open>
  The value of a scalar float tensor: a finite number, an infinity or NaN, with the
  arithmetic of the tensor library on the special values (exact on finite numbers; a
  zero divisor is taken as positive zero). \<^verbatim>\<open>T.isnan\<close> and \<^verbatim>\<open>T.isinf\<close> are \<open>isnan\<close> and
  \<open>isinf\<close>.
\<close>

datatype fval = Fin real | PInf | NInf | NaN

fun isnan :: "fval \<Rightarrow> bool" where
  "isnan NaN = True"
| "isnan _ = False"

fun isinf :: "fval \<Rightarrow> bool" where
  "isinf PInf = True"
| "isinf NInf = True"
| "isinf _ = False"

fun fneg :: "fval \<Rightarrow> fval" where
  "fneg (Fin a) = Fin (- a)"
| "fneg PInf = NInf"
| "fneg NInf = PInf"
| "fneg NaN = NaN"

fun fadd :: "fval \<Rightarrow> fval \<Rightarrow> fval" where
  "fadd NaN _ = NaN"
| "fadd _ NaN = NaN"
| "fadd PInf NInf = NaN"
| "fadd NInf PInf = NaN"
| "fadd PInf _ = PInf"
| "fadd _ PInf = PInf"
| "fadd NInf _ = NInf"
| "fadd _ NInf = NInf"
| "fadd (Fin a) (Fin b) = Fin (a + b)"

definition fsub :: "fval \<Rightarrow> fval \<Rightarrow> fval" where
  "fsub x y = fadd x (fneg y)"

fun fmul :: "fval \<Rightarrow> fval \<Rightarrow> fval" where
  "fmul NaN _ = NaN"
| "fmul _ NaN = NaN"
| "fmul (Fin a) (Fin b) = Fin (a * b)"
| "fmul (Fin a) PInf = (if a = 0 then NaN else if 0 < a then PInf else NInf)"
| "fmul (Fin a) NInf = (if a = 0 then NaN else if 0 < a then NInf else PInf)"
| "fmul PInf (Fin b) = (if b = 0 then NaN else if 0 < b then PInf else NInf)"
| "fmul NInf (Fin b) = (if b = 0 then NaN else if 0 < b then NInf else PInf)"
| "fmul PInf PInf = PInf"
| "fmul PInf NInf = NInf"
| "fmul NInf PInf = NInf"
| "fmul NInf NInf = PInf"

fun fdiv :: "fval \<Rightarrow> fval \<Rightarrow> fval" where
  "fdiv NaN _ = NaN"
| "fdiv _ NaN = NaN"
| "fdiv (Fin a) (Fin b) =
     (if b = 0 then (if a = 0 then NaN else if 0 < a then PInf else NInf) else Fin (a / b))"
| "fdiv (Fin a) PInf = Fin 0"
| "fdiv (Fin a) NInf = Fin 0"
| "fdiv PInf (Fin b) = (if 0 \<le> b then PInf else NInf)"
| "fdiv NInf (Fin b) = (if 0 \<le> b then NInf else PInf)"
| "fdiv PInf PInf = NaN"
| "fdiv PInf NInf = NaN"
| "fdiv NInf PInf = NaN"
| "fdiv NInf NInf = NaN"

fun fsqrt :: "fval \<Rightarrow> fval" where
  "fsqrt (Fin a) = (if a < 0 then NaN else Fin (sqrt a))"
| "fsqrt PInf = PInf"
| "fsqrt NInf = NaN"
| "fsqrt NaN = NaN"

section \<open>The agent: class Agent\<close>

record 'o Agent =
  gamma :: real
  policy_clip :: real
  n_epochs :: nat
  gae_lambda :: real
  entropy_coef :: real
  running_mean :: fval
  running_var :: fval
  epsilon :: real
  actor :: "'o ActorNetwork"
  critic :: "'o CriticNetwork"
  memory :: PPOMemory

text \<open>
  \<^verbatim>\<open>__init__\<close>, given the two networks as they come out of their constructors (their
  weights are drawn at random there).
\<close>

definition Agent_init ::
  "real \<Rightarrow> real \<Rightarrow> real \<Rightarrow> nat \<Rightarrow> nat \<Rightarrow> real \<Rightarrow> 'o ActorNetwork \<Rightarrow> 'o CriticNetwork \<Rightarrow> 'o Agent"
where
  "Agent_init g lam clip b epochs ecoef a c =
     \<lparr>gamma = g, policy_clip = clip, n_epochs = epochs, gae_lambda = lam,
      entropy_coef = ecoef, running_mean = Fin 0, running_var = Fin 1,
      epsilon = 1 / 10 ^ 8,
      actor = a, critic = c, memory = PPOMemory_init b\<rparr>"

definition remember ::
  "'o Agent \<Rightarrow> vec \<Rightarrow> vec \<Rightarrow> real \<Rightarrow> real \<Rightarrow> real \<Rightarrow> bool \<Rightarrow> 'o Agent"
where
  "remember ag state action prob val reward done =
     ag\<lparr>memory := store_memory (memory ag) state action prob val reward done\<rparr>"

text \<open>
  \<^verbatim>\<open>normalize_reward\<close>. The reward may be any float, also NaN or an infinity; \<^verbatim>\<open>x ** 2\<close>
  is \<open>x * x\<close>. The statistics are written before the assertion, so both branches
  return the updated agent.
\<close>

definition normalize_reward :: "'o Agent \<Rightarrow> fval \<Rightarrow> (error + fval) \<times> 'o Agent" where
  "normalize_reward ag reward =
     (let rm = fadd (fmul (Fin (99 / 100)) (running_mean ag)) (fmul (Fin (1 / 100)) reward);
          rv = fadd (fmul (Fin (99 / 100)) (running_var ag))
                 (fmul (Fin (1 / 100)) (fmul (fsub reward rm) (fsub reward rm)));
          normalized_reward = fdiv (fsub reward rm) (fadd (fsqrt rv) (Fin (epsilon ag)));
          ag' = ag\<lparr>running_mean := rm, running_var := rv\<rparr>
      in if isnan normalized_reward \<or> isinf normalized_reward then (Inl AssertionError, ag')
         else (Inr normalized_reward, ag'))"

definition choose_action ::
  "'o Agent \<Rightarrow> (vec \<Rightarrow> vec \<Rightarrow> vec) \<Rightarrow> vec \<Rightarrow> vec \<times> real \<times> real"
where
  "choose_action ag sample observation =
     (let state = observation;
          (action, lp, val) = sample_normal (actor ag) sample state;
          value = critic_forward (critic ag) state
      in (action, lp, value))"

subsection \<open>Agent.learn: the advantage array\<close>

text \<open>
  The loop \<^verbatim>\<open>for t in reversed(range(len(reward_arr) - 1))\<close>. The counter \<open>Suc t\<close> means
  that \<open>t\<close> is the next index visited; a read outside an array raises. \<^verbatim>\<open>int(done)\<close> of
  a boolean is \<open>of_bool\<close>. The chained assignment \<^verbatim>\<open>advantage[t] = last_adv = ...\<close> stores
  one value in both places.
\<close>

fun gae_loop ::
  "real \<Rightarrow> real \<Rightarrow> real list \<Rightarrow> real list \<Rightarrow> bool list \<Rightarrow> nat \<Rightarrow> real list \<Rightarrow> real \<Rightarrow>
   error + real list"
where
  "gae_loop g lam reward_arr vals_arr dones_arr 0 advantage last_adv = Inr advantage"
| "gae_loop g lam reward_arr vals_arr dones_arr (Suc t) advantage last_adv =
     (if t < length reward_arr \<and> t + 1 < length vals_arr \<and> t < length dones_arr then
        (let delta = reward_arr ! t
                     + g * vals_arr ! (t + 1) * (1 - of_bool (dones_arr ! t))
                     - vals_arr ! t;
             last_adv = delta + g * lam * last_adv
         in gae_loop g lam reward_arr vals_arr dones_arr t (advantage[t := last_adv]) last_adv)
      else Inl IndexError)"

definition compute_advantage ::
  "real \<Rightarrow> real \<Rightarrow> real list \<Rightarrow> real list \<Rightarrow> bool list \<Rightarrow> error + real list"
where
  "compute_advantage g lam reward_arr vals_arr dones_arr =
     gae_loop g lam reward_arr vals_arr dones_arr (length reward_arr - 1)
       (replicate (length reward_arr) 0) 0"

text \<open>
  \<^verbatim>\<open>.mean()\<close> and \<^verbatim>\<open>.std(unbiased=False)\<close> of a tensor: the mean of all entries and
  the population standard deviation.
\<close>

definition tensor_mean :: "real list \<Rightarrow> real" where
  "tensor_mean xs = sum_list xs / real (length xs)"

definition tensor_std :: "real list \<Rightarrow> real" where
  "tensor_std xs = sqrt (tensor_mean (map (\<lambda>x. (x - tensor_mean xs)\<^sup>2) xs))"

definition normalize_advantage :: "real list \<Rightarrow> real list" where
  "normalize_advantage advantage =
     map (\<lambda>a. (a - tensor_mean advantage) / (tensor_std advantage + 1 / 10 ^ 8)) advantage"

subsection \<open>Agent.learn: the losses of one minibatch\<close>

text \<open>\<^verbatim>\<open>arr[batch]\<close> with an index array: an index outside the array raises.\<close>

definition index_arr :: "'a list \<Rightarrow> nat list \<Rightarrow> error + 'a list" where
  "index_arr arr batch =
     (if list_all (\<lambda>i. i < length arr) batch then Inr (map (\<lambda>i. arr ! i) batch)
      else Inl IndexError)"

text \<open>
  The actor's loss of a minibatch of \<open>b\<close> transitions. \<open>new_probs\<close> and \<open>old_probs\<close> have
  shape \<open>(b, 1)\<close> and \<^verbatim>\<open>advantage[batch]\<close> has shape \<open>(b)\<close>, so their products broadcast
  to shape \<open>(b, b)\<close>: row \<open>i\<close> holds \<open>advantage[batch][j] * prob_ratio[i]\<close> for every \<open>j\<close>.
  The means run over all entries.
\<close>

definition actor_loss ::
  "real \<Rightarrow> real \<Rightarrow> 'o ActorNetwork \<Rightarrow> vec list \<Rightarrow> real list \<Rightarrow> vec list \<Rightarrow> real list \<Rightarrow> real"
where
  "actor_loss clip ecoef net sts old_probs acts adv_batch =
     (let distrs = map (\<lambda>st. \<lparr>loc = fst (forward net st),
                              scale = clamp_min (snd (forward net st)) (1 / 10 ^ 4)\<rparr>) sts;
          new_probs = map (\<lambda>(d, a). sum_list (log_prob d a)) (zip distrs acts);
          prob_ratio = map (\<lambda>(np, op). exp (np - op)) (zip new_probs old_probs);
          weighted_probs = map (\<lambda>r. map (\<lambda>a. a * r) adv_batch) prob_ratio;
          weighted_clipped_probs =
            map (\<lambda>r. map (\<lambda>a. clamp r (1 - clip) (1 + clip) * a) adv_batch) prob_ratio;
          entropy_loss = tensor_mean (concat (map entropy distrs))
      in - tensor_mean (map (\<lambda>(x, y). min x y)
                          (zip (concat weighted_probs) (concat weighted_clipped_probs)))
         - ecoef * entropy_loss)"

text \<open>
  The critic's loss. \<open>detached\<close> is \<^verbatim>\<open>critic_value.detach()\<close>: the same numbers as
  \<open>critic_value\<close>, held constant when the loss is differentiated.
\<close>

definition critic_loss :: "real list \<Rightarrow> real list \<Rightarrow> real list \<Rightarrow> real" where
  "critic_loss adv_batch detached critic_value =
     (let returns = map (\<lambda>(a, c). a + c) (zip adv_batch detached)
      in tensor_mean (map (\<lambda>(r, c). (r - c)\<^sup>2) (zip returns critic_value)))"

text \<open>
  \<^verbatim>\<open>total_loss\<close> as a function of the parameters it is differentiated in, the pair
  \<open>nets'\<close>; the detached critic values come from the critic \<open>cur\<close> of the moment. The
  number the forward pass computes is \<open>total_loss\<close> at \<open>nets' = (actor, cur)\<close>.
\<close>

definition total_loss ::
  "real \<Rightarrow> real \<Rightarrow> 'o CriticNetwork \<Rightarrow> vec list \<Rightarrow> real list \<Rightarrow> vec list \<Rightarrow> real list \<Rightarrow>
   'o ActorNetwork \<times> 'o CriticNetwork \<Rightarrow> real"
where
  "total_loss clip ecoef cur sts old_probs acts adv_batch nets' =
     actor_loss clip ecoef (fst nets') sts old_probs acts adv_batch
     + 1 / 2 * critic_loss adv_batch (map (critic_forward cur) sts)
                 (map (critic_forward (snd nets')) sts)"

subsection \<open>Agent.learn: the loops\<close>

text \<open>
  The body of \<^verbatim>\<open>for batch in batches\<close>. \<open>opt\<close> stands for \<^verbatim>\<open>zero_grad\<close>,
  \<^verbatim>\<open>total_loss.backward()\<close>, the two \<^verbatim>\<open>clip_grad_norm_\<close> and the two optimiser steps: from
  the loss as a function of the parameters and the networks of the moment to the
  networks after the step.
\<close>

type_synonym 'o optimise =
  "('o ActorNetwork \<times> 'o CriticNetwork \<Rightarrow> real) \<Rightarrow> 'o ActorNetwork \<times> 'o CriticNetwork \<Rightarrow>
   'o ActorNetwork \<times> 'o CriticNetwork"

definition update_batch ::
  "'o optimise \<Rightarrow> vec list \<Rightarrow> vec list \<Rightarrow> real list \<Rightarrow> real list \<Rightarrow> nat list \<Rightarrow> 'o Agent \<Rightarrow>
   error + 'o Agent"
where
  "update_batch opt state_arr action_arr old_prob_arr advantage batch ag =
     (case index_arr state_arr batch of Inl e \<Rightarrow> Inl e | Inr sts \<Rightarrow>
     (case index_arr old_prob_arr batch of Inl e \<Rightarrow> Inl e | Inr old_probs \<Rightarrow>
     (case index_arr action_arr batch of Inl e \<Rightarrow> Inl e | Inr acts \<Rightarrow>
     (case index_arr advantage batch of Inl e \<Rightarrow> Inl e | Inr adv_batch \<Rightarrow>
        (let nets = opt (total_loss (policy_clip ag) (entropy_coef ag) (critic ag)
                           sts old_probs acts adv_batch)
                        (actor ag, critic ag)
         in Inr (ag\<lparr>actor := fst nets, critic := snd nets\<rparr>))))))"

fun batch_loop ::
  "'o optimise \<Rightarrow> vec list \<Rightarrow> vec list \<Rightarrow> real list \<Rightarrow> real list \<Rightarrow> nat list list \<Rightarrow> 'o Agent \<Rightarrow>
   error + 'o Agent"
where
  "batch_loop opt state_arr action_arr old_prob_arr advantage [] ag = Inr ag"
| "batch_loop opt state_arr action_arr old_prob_arr advantage (batch # batches) ag =
     (case update_batch opt state_arr action_arr old_prob_arr advantage batch ag of
        Inl e \<Rightarrow> Inl e
      | Inr ag' \<Rightarrow> batch_loop opt state_arr action_arr old_prob_arr advantage batches ag')"

text \<open>One pass of \<^verbatim>\<open>for _ in range(self.n_epochs)\<close>, with the shuffle of this pass.\<close>

definition epoch :: "'o optimise \<Rightarrow> (nat list \<Rightarrow> nat list) \<Rightarrow> 'o Agent \<Rightarrow> error + 'o Agent" where
  "epoch opt shuffle ag =
     (case generate_batches (memory ag) shuffle of
        Inl e \<Rightarrow> Inl e
      | Inr (state_arr, action_arr, old_prob_arr, vals_arr, reward_arr, dones_arr, batches) \<Rightarrow>
          (case compute_advantage (gamma ag) (gae_lambda ag) reward_arr vals_arr dones_arr of
             Inl e \<Rightarrow> Inl e
           | Inr advantage \<Rightarrow>
               batch_loop opt state_arr action_arr old_prob_arr
                 (normalize_advantage advantage) batches ag))"

text \<open>
  The epochs: \<open>rng k\<close> is the shuffle of pass \<open>k\<close>, the first argument counts the passes
  done and the second those left.
\<close>

fun epoch_loop ::
  "'o optimise \<Rightarrow> (nat \<Rightarrow> nat list \<Rightarrow> nat list) \<Rightarrow> nat \<Rightarrow> nat \<Rightarrow> 'o Agent \<Rightarrow> error + 'o Agent"
where
  "epoch_loop opt rng k 0 ag = Inr ag"
| "epoch_loop opt rng k (Suc left) ag =
     (case epoch opt (rng k) ag of
        Inl e \<Rightarrow> Inl e
      | Inr ag' \<Rightarrow> epoch_loop opt rng (Suc k) left ag')"

definition learn ::
  "'o optimise \<Rightarrow> (nat \<Rightarrow> nat list \<Rightarrow> nat list) \<Rightarrow> 'o Agent \<Rightarrow> error + 'o Agent"
where
  "learn opt rng ag =
     (case epoch_loop opt rng 0 (n_epochs ag) ag of
        Inl e \<Rightarrow> Inl e
      | Inr ag' \<Rightarrow> Inr (ag'\<lparr>memory := clear_memory (memory ag')\<rparr>))"

section \<open>Notions of the specification\<close>

text \<open>The buffer invariant: the six sequences have one length.\<close>

definition aligned :: "PPOMemory \<Rightarrow> bool" where
  "aligned mem \<longleftrightarrow>
     length (actions mem) = length (states mem) \<and>
     length (probs mem) = length (states mem) \<and>
     length (vals mem) = length (states mem) \<and>
     length (rewards mem) = length (states mem) \<and>
     length (dones mem) = length (states mem)"

text \<open>
  The agents that the operations of the class can produce from a freshly constructed
  one, for any optimiser step and any shuffles.
\<close>

inductive reachable :: "'o Agent \<Rightarrow> bool" where
  init: "reachable (Agent_init g lam clip b epochs ecoef a c)"
| remember: "reachable ag \<Longrightarrow> reachable (remember ag state action prob val reward d)"
| normalize: "reachable ag \<Longrightarrow> reachable (snd (normalize_reward ag reward))"
| learn: "reachable ag \<Longrightarrow> learn opt rng ag = Inr ag' \<Longrightarrow> reachable ag'"

text \<open>The TD residual \<open>delta_t\<close> of the specification.\<close>

definition td_residual :: "real \<Rightarrow> real list \<Rightarrow> real list \<Rightarrow> bool list \<Rightarrow> nat \<Rightarrow> real" where
  "td_residual g reward value done t =
     reward ! t + g * value ! (t + 1) * (1 - of_bool (done ! t)) - value ! t"

text \<open>
  The sum over the action dimensions of the Normal log-density of \<open>x\<close>, for a location
  and a scale vector.
\<close>

definition joint_log_density :: "vec \<Rightarrow> vec \<Rightarrow> vec \<Rightarrow> real" where
  "joint_log_density m s x = (\<Sum>i<length x. normal_log_pdf (m ! i) (s ! i) (x ! i))"

text \<open>
  The specification's reading of \<open>learn\<close>: the raw advantage array is computed once,
  from the buffer as it is before the first epoch, and every epoch uses that array.
\<close>

definition raw_advantage :: "'o Agent \<Rightarrow> error + real list" where
  "raw_advantage ag =
     compute_advantage (gamma ag) (gae_lambda ag)
       (rewards (memory ag)) (vals (memory ag)) (dones (memory ag))"

definition epoch_given ::
  "'o optimise \<Rightarrow> (nat list \<Rightarrow> nat list) \<Rightarrow> error + real list \<Rightarrow> 'o Agent \<Rightarrow> error + 'o Agent"
where
  "epoch_given opt shuffle raw ag =
     (case generate_batches (memory ag) shuffle of
        Inl e \<Rightarrow> Inl e
      | Inr (state_arr, action_arr, old_prob_arr, vals_arr, reward_arr, dones_arr, batches) \<Rightarrow>
          (case raw of
             Inl e \<Rightarrow> Inl e
           | Inr advantage \<Rightarrow>
               batch_loop opt state_arr action_arr old_prob_arr
                 (normalize_advantage advantage) batches ag))"

fun epoch_loop_given ::
  "'o optimise \<Rightarrow> (nat \<Rightarrow> nat list \<Rightarrow> nat list) \<Rightarrow> error + real list \<Rightarrow> nat \<Rightarrow> nat \<Rightarrow> 'o Agent \<Rightarrow>
   error + 'o Agent"
where
  "epoch_loop_given opt rng raw k 0 ag = Inr ag"
| "epoch_loop_given opt rng raw k (Suc left) ag =
     (case epoch_given opt (rng k) raw ag of
        Inl e \<Rightarrow> Inl e
      | Inr ag' \<Rightarrow> epoch_loop_given opt rng raw (Suc k) left ag')"

definition learn_advantage_once ::
  "'o optimise \<Rightarrow> (nat \<Rightarrow> nat list \<Rightarrow> nat list) \<Rightarrow> 'o Agent \<Rightarrow> error + 'o Agent"
where
  "learn_advantage_once opt rng ag =
     (let raw = raw_advantage ag in
      case epoch_loop_given opt rng raw 0 (n_epochs ag) ag of
        Inl e \<Rightarrow> Inl e
      | Inr ag' \<Rightarrow> Inr (ag'\<lparr>memory := clear_memory (memory ag')\<rparr>))"

section \<open>Concrete inputs\<close>

text \<open>
  A buffer of three transitions with minibatch size two, built by the store operation;
  networks with one unit per layer and all parameters zero; an agent over them that has
  remembered the three transitions; an optimiser step that leaves the parameters as they
  are; shuffles that rotate the index array by the number of the epoch; and a sampler
  that returns a fixed draw.
\<close>

definition mem3 :: PPOMemory where
  "mem3 =
     store_memory
       (store_memory (store_memory (PPOMemory_init 2) [0] [0] 0 0 1 False) [1] [0] 0 0 1 False)
       [2] [0] 0 0 1 True"

definition actor0 :: "unit ActorNetwork" where
  "actor0 =
     \<lparr>actor_fc1 = ([[0]], [0]), actor_fc2 = ([[0]], [0]), mean_layer = ([[0]], [0]),
      log_std = [0], actor_optimiser = ()\<rparr>"

definition critic0 :: "unit CriticNetwork" where
  "critic0 =
     \<lparr>critic_fc1 = ([[0]], [0]), critic_fc2 = ([[0]], [0]), critic_out = ([0], 0),
      critic_optimiser = ()\<rparr>"

definition agent3 :: "unit Agent" where
  "agent3 =
     remember
       (remember
          (remember (Agent_init (99 / 100) (95 / 100) (2 / 10) 2 2 (1 / 100) actor0 critic0)
             [0] [0] 0 0 1 False)
          [1] [0] 0 0 1 False)
       [2] [0] 0 0 1 True"

definition keep_nets :: "unit optimise" where
  "keep_nets loss nets = nets"

definition rotate_rng :: "nat \<Rightarrow> nat list \<Rightarrow> nat list" where
  "rotate_rng k xs = rotate k xs"

definition fixed_sample :: "vec \<Rightarrow> vec \<Rightarrow> vec \<Rightarrow> vec" where
  "fixed_sample v m s = v"

section \<open>Batch generation\<close>

declare arange_from.simps [simp del]

lemma ceil_step:
  assumes "0 < step" "i < stop"
  shows "(stop - i + step - 1) div step = Suc ((stop - (i + step) + step - 1) div step)"
proof (cases "i + step \<le> stop")
  case True
  define x where "x = stop - (i + step) + step - 1"
  have "stop - i + step - 1 = x + step"
    using True assms by (simp add: x_def)
  then have "(stop - i + step - 1) div step = (x + step) div step" by (simp only:)
  also have "\<dots> = Suc (x div step)" using assms(1) by simp
  finally show ?thesis by (simp add: x_def)
next
  case False
  with assms have a: "stop - (i + step) + step - 1 < step" by simp
  from False assms have b: "step \<le> stop - i + step - 1" "stop - i + step - 1 < 2 * step"
    by simp_all
  define y where "y = stop - i + step - 1 - step"
  have y: "stop - i + step - 1 = y + step" "y < step" using b by (simp_all add: y_def)
  have "(stop - i + step - 1) div step = (y + step) div step" by (simp only: y(1))
  also have "\<dots> = Suc (y div step)" using assms(1) by simp
  also have "\<dots> = 1" using y by simp
  finally show ?thesis using a by simp
qed

text \<open>The start indices are the multiples of the step below the stop.\<close>

lemma arange_from_explicit:
  "0 < step \<Longrightarrow>
   arange_from i stop step = map (\<lambda>k. i + k * step) [0..<(stop - i + step - 1) div step]"
proof (induction i stop step rule: arange_from.induct)
  case (1 i stop step)
  show ?case
  proof (cases "i < stop")
    case False
    then have "(stop - i + step - 1) div step = 0" using 1(2) by simp
    with False show ?thesis by (simp add: arange_from.simps[of i])
  next
    case True
    note d = ceil_step[OF 1(2) True]
    have "arange_from i stop step = i # arange_from (i + step) stop step"
      using True 1(2) by (simp add: arange_from.simps[of i])
    also have "\<dots> = i # map (\<lambda>k. (i + step) + k * step)
                            [0..<(stop - (i + step) + step - 1) div step]"
      using 1(1) True 1(2) by simp
    also have "\<dots> = map (\<lambda>k. i + k * step) [0..<Suc ((stop - (i + step) + step - 1) div step)]"
      by (simp add: upt_conv_Cons map_Suc_upt[symmetric] del: upt_Suc add: ac_simps)
    finally show ?thesis using d by simp
  qed
qed

lemma ceil_div_nat:
  assumes "0 < b"
  shows "nat \<lceil>real n / real b\<rceil> = (n + b - 1) div b"
proof -
  define q where "q = (n + b - 1) div b"
  define r where "r = (n + b - 1) mod b"
  have e: "n + b - 1 = q * b + r" and rb: "r < b"
    using assms by (simp_all add: q_def r_def)
  have up: "n \<le> q * b" using e rb by linarith
  have lo: "q * b < n + b" using e rb assms by linarith
  have 1: "real n / real b \<le> real q"
    using up assms by (simp add: divide_le_eq flip: of_nat_mult)
  have 2: "real q - 1 < real n / real b"
  proof -
    have "real (q * b) < real (n + b)" using lo by (simp only: of_nat_less_iff)
    then have "(real q - 1) * real b < real n" by (simp add: algebra_simps)
    then show ?thesis using assms by (simp add: less_divide_eq)
  qed
  have "\<lceil>real n / real b\<rceil> = int q"
    by (rule ceiling_unique) (use 1 2 in simp_all)
  then show ?thesis by (simp add: q_def)
qed

lemma concat_slices:
  "concat (map (\<lambda>k. take b (drop (k * b) xs)) [0..<m]) = take (m * b) xs"
proof (induction m)
  case 0
  show ?case by simp
next
  case (Suc m)
  have "concat (map (\<lambda>k. take b (drop (k * b) xs)) [0..<Suc m]) =
        take (m * b) xs @ take b (drop (m * b) xs)"
    using Suc by simp
  also have "\<dots> = take (m * b + b) xs" by (simp add: take_add)
  finally show ?case by (simp add: add.commute)
qed

lemma ceil_mult_ge:
  fixes b n :: nat
  assumes b: "0 < b"
  shows "n \<le> ((n + b - 1) div b) * b"
proof -
  have "n + b - 1 = ((n + b - 1) div b) * b + (n + b - 1) mod b" by simp
  moreover have "(n + b - 1) mod b < b" using b by simp
  ultimately show ?thesis by linarith
qed

lemma below_ceil:
  fixes b n k :: nat
  assumes b: "0 < b" and k: "k < (n + b - 1) div b"
  shows "k * b < n"
proof -
  from k have "Suc k \<le> (n + b - 1) div b" by simp
  then have "Suc k * b \<le> n + b - 1" using b by (simp add: less_eq_div_iff_mult_less_eq)
  then show ?thesis using b by simp
qed

lemma generate_batches_explicit:
  assumes "0 < batch_size mem"
  shows "generate_batches mem shuffle =
     Inr (states mem, actions mem, probs mem, vals mem, rewards mem, dones mem,
          map (\<lambda>k. take (batch_size mem) (drop (k * batch_size mem)
                      (shuffle [0..<length (states mem)])))
            [0..<(length (states mem) + batch_size mem - 1) div batch_size mem])"
  using assms
  by (simp add: generate_batches_def arange_def arange_from_explicit Let_def comp_def)

lemma disjoint_of_distinct_concat:
  assumes d: "distinct (concat bs)" and ne: "\<forall>B\<in>set bs. B \<noteq> []"
    and i: "i < length bs" and j: "j < length bs" and ij: "i \<noteq> j"
  shows "set (bs ! i) \<inter> set (bs ! j) = {}"
proof -
  have r: "removeAll [] bs = bs" using ne by (auto intro: removeAll_id)
  from d have db: "distinct bs"
    and dj: "\<And>ys zs. ys \<in> set bs \<Longrightarrow> zs \<in> set bs \<Longrightarrow> ys \<noteq> zs \<Longrightarrow> set ys \<inter> set zs = {}"
    unfolding distinct_concat_iff r by blast+
  have "bs ! i \<noteq> bs ! j" using db i j ij by (simp add: nth_eq_iff_index_eq)
  then show ?thesis using dj i j by simp
qed

text \<open>
  Claim C3. For a buffer of \<open>n \<ge> 1\<close> transitions, a minibatch size \<open>b \<ge> 1\<close> and a
  shuffle that permutes the index array, \<open>generate_batches\<close> returns the six arrays and
  \<open>ceil(n / b)\<close> batches; every batch is non-empty and has at most \<open>b\<close> indices, every batch
  but the last has exactly \<open>b\<close>; the batches in order are the shuffled index array, so
  they are pairwise disjoint and cover \<open>[0, n)\<close>, each index once.
\<close>

theorem generate_batches_partition:
  fixes mem :: PPOMemory
  defines "n \<equiv> length (states mem)" and "b \<equiv> batch_size mem"
  assumes n: "1 \<le> n" and b: "1 \<le> b"
    and perm: "mset (shuffle [0..<n]) = mset [0..<n]"
  shows "\<exists>batches.
     generate_batches mem shuffle =
       Inr (states mem, actions mem, probs mem, vals mem, rewards mem, dones mem, batches) \<and>
     length batches = nat \<lceil>real n / real b\<rceil> \<and>
     (\<forall>B \<in> set batches. B \<noteq> [] \<and> length B \<le> b) \<and>
     (\<forall>k. Suc k < length batches \<longrightarrow> length (batches ! k) = b) \<and>
     concat batches = shuffle [0..<n] \<and>
     distinct (concat batches) \<and>
     set (concat batches) = {0..<n} \<and>
     (\<forall>i < length batches. \<forall>j < length batches.
        i \<noteq> j \<longrightarrow> set (batches ! i) \<inter> set (batches ! j) = {})"
proof -
  define ix where "ix = shuffle [0..<n]"
  define m where "m = (n + b - 1) div b"
  define batches where "batches = map (\<lambda>k. take b (drop (k * b) ix)) [0..<m]"
  have b0: "0 < b" using b by simp
  have len_ix: "length ix = n"
    using perm by (metis ix_def length_upt mset_eq_length minus_nat.diff_0)
  have gb: "generate_batches mem shuffle =
       Inr (states mem, actions mem, probs mem, vals mem, rewards mem, dones mem, batches)"
    using generate_batches_explicit[of mem shuffle] b0
    by (simp add: batches_def ix_def m_def n_def b_def)
  have lenb: "length batches = m" by (simp add: batches_def)
  have nth_b: "batches ! k = take b (drop (k * b) ix)" if "k < m" for k
    using that by (simp add: batches_def)
  have c1: "length batches = nat \<lceil>real n / real b\<rceil>"
    using lenb ceil_div_nat[OF b0, of n] by (simp add: m_def)
  have c2: "\<forall>B \<in> set batches. B \<noteq> [] \<and> length B \<le> b"
  proof
    fix B assume "B \<in> set batches"
    then obtain k where k: "k < m" and B: "B = take b (drop (k * b) ix)"
      by (auto simp: batches_def)
    have "k * b < n" using below_ceil[OF b0] k by (simp add: m_def)
    then show "B \<noteq> [] \<and> length B \<le> b" using B len_ix b0 by simp
  qed
  have c3: "\<forall>k. Suc k < length batches \<longrightarrow> length (batches ! k) = b"
  proof (intro allI impI)
    fix k assume k: "Suc k < length batches"
    then have "Suc k * b < n" using below_ceil[OF b0, of "Suc k" n] lenb by (simp add: m_def)
    then have "b \<le> n - k * b" by simp
    moreover have "k < m" using k lenb by simp
    ultimately show "length (batches ! k) = b" using nth_b len_ix by simp
  qed
  have c4: "concat batches = ix"
    using concat_slices[of b ix m] ceil_mult_ge[OF b0, of n] len_ix
    by (simp add: batches_def m_def)
  have c5: "distinct (concat batches)"
    using c4 perm by (metis distinct_upt ix_def mset_eq_imp_distinct_iff)
  have c6: "set (concat batches) = {0..<n}"
    using c4 perm by (metis ix_def mset_eq_setD set_upt)
  have c7: "\<forall>i < length batches. \<forall>j < length batches.
        i \<noteq> j \<longrightarrow> set (batches ! i) \<inter> set (batches ! j) = {}"
    using disjoint_of_distinct_concat[OF c5] c2 by blast
  show ?thesis
    using gb c1 c2 c3 c4 c5 c6 c7 unfolding ix_def by blast
qed

lemma mem3_fields:
  "states mem3 = [[0], [1], [2]]" "actions mem3 = [[0], [0], [0]]" "probs mem3 = [0, 0, 0]"
  "vals mem3 = [0, 0, 0]" "rewards mem3 = [1, 1, 1]" "dones mem3 = [False, False, True]"
  "batch_size mem3 = 2"
  by (simp_all add: mem3_def store_memory_def PPOMemory_init_def)

theorem generate_batches_partition_witness:
  "(1::nat) \<le> length (states mem3) \<and> 1 \<le> batch_size mem3 \<and>
   mset (rev [0..<length (states mem3)]) = mset [0..<length (states mem3)] \<and>
   (\<exists>batches.
      generate_batches mem3 rev =
        Inr ([[0], [1], [2]], [[0], [0], [0]], [0, 0, 0], [0, 0, 0], [1, 1, 1],
             [False, False, True], batches) \<and>
      length batches = 2 \<and> concat batches = [2, 1, 0])"
proof -
  have h1: "1 \<le> length (states mem3)" and h2: "1 \<le> batch_size mem3"
    by (simp_all add: mem3_fields)
  have h3: "mset (rev [0..<length (states mem3)]) = mset [0..<length (states mem3)]"
    by simp
  have c: "nat \<lceil>real (length (states mem3)) / real (batch_size mem3)\<rceil> = 2"
    by (simp add: mem3_fields)
  have r: "rev [0..<length (states mem3)] = [2, 1, 0]"
    by (simp add: mem3_fields upt_rec)
  from generate_batches_partition[of mem3 rev, OF h1 h2 h3]
  obtain bs where
    "generate_batches mem3 rev =
       Inr (states mem3, actions mem3, probs mem3, vals mem3, rewards mem3, dones mem3, bs)"
    "length bs = 2" "concat bs = [2, 1, 0]"
    unfolding c r by blast
  then show ?thesis using h1 h2 h3 by (simp add: mem3_fields)
qed

section \<open>The advantage array\<close>

lemma gae_loop_spec:
  assumes "length reward = n" "length value = n" "length done = n"
  shows "t < n \<Longrightarrow> length adv = n \<Longrightarrow>
    \<exists>adv'. gae_loop g lam reward value done t adv lst = Inr adv' \<and> length adv' = n \<and>
      (\<forall>i. t \<le> i \<longrightarrow> adv' ! i = adv ! i) \<and>
      (\<forall>i<t. adv' ! i = td_residual g reward value done i
                 + g * lam * (if Suc i = t then lst else adv' ! Suc i))"
proof (induction t arbitrary: adv lst)
  case 0
  then show ?case by simp
next
  case (Suc t)
  define la where "la = td_residual g reward value done t + g * lam * lst"
  have t: "t < n" "Suc t < n" using Suc.prems by simp_all
  have step: "gae_loop g lam reward value done (Suc t) adv lst =
              gae_loop g lam reward value done t (adv[t := la]) la"
    using t assms by (simp add: la_def td_residual_def Let_def)
  from Suc.IH[of "adv[t := la]" la] t Suc.prems
  obtain adv' where r: "gae_loop g lam reward value done t (adv[t := la]) la = Inr adv'"
    and l: "length adv' = n"
    and keep: "\<forall>i. t \<le> i \<longrightarrow> adv' ! i = adv[t := la] ! i"
    and rec: "\<forall>i<t. adv' ! i = td_residual g reward value done i
                 + g * lam * (if Suc i = t then la else adv' ! Suc i)"
    by auto
  have at_t: "adv' ! t = la" using keep t Suc.prems by simp
  have k2: "\<forall>i. Suc t \<le> i \<longrightarrow> adv' ! i = adv ! i" using keep by simp
  have r2: "\<forall>i<Suc t. adv' ! i = td_residual g reward value done i
                 + g * lam * (if Suc i = Suc t then lst else adv' ! Suc i)"
  proof (intro allI impI)
    fix i assume "i < Suc t"
    then consider "i = t" | "i < t" by linarith
    then show "adv' ! i = td_residual g reward value done i
                 + g * lam * (if Suc i = Suc t then lst else adv' ! Suc i)"
    proof cases
      case 1
      then show ?thesis using at_t by (simp add: la_def)
    next
      case 2
      then show ?thesis using rec at_t by auto
    qed
  qed
  show ?case using step r l k2 r2 by simp
qed

lemma discounted_sum_step:
  fixes c :: real
  assumes "t < m"
  shows "(\<Sum>k = t..<m. c ^ (k - t) * f k) = f t + c * (\<Sum>k = Suc t..<m. c ^ (k - Suc t) * f k)"
proof -
  have "(\<Sum>k = t..<m. c ^ (k - t) * f k) = f t + (\<Sum>k = Suc t..<m. c ^ (k - t) * f k)"
    using assms by (simp add: sum.atLeast_Suc_lessThan)
  also have "(\<Sum>k = Suc t..<m. c ^ (k - t) * f k) = (\<Sum>k = Suc t..<m. c * (c ^ (k - Suc t) * f k))"
  proof (rule sum.cong)
    fix k assume "k \<in> {Suc t..<m}"
    then have "k - t = Suc (k - Suc t)" by auto
    then show "c ^ (k - t) * f k = c * (c ^ (k - Suc t) * f k)" by simp
  qed simp
  finally show ?thesis by (simp add: sum_distrib_left)
qed

lemma closed_form:
  fixes adv :: "real list" and c :: real
  assumes last0: "adv ! m = 0"
    and rec: "\<forall>t<m. adv ! t = f t + c * adv ! (t + 1)"
  shows "t \<le> m \<Longrightarrow> adv ! t = (\<Sum>k = t..<m. c ^ (k - t) * f k)"
proof (induction rule: inc_induct)
  case base
  show ?case using last0 by simp
next
  case (step t)
  have "adv ! t = f t + c * adv ! (Suc t)" using rec step.hyps by simp
  also have "\<dots> = f t + c * (\<Sum>k = Suc t..<m. c ^ (k - Suc t) * f k)"
    using step.IH by simp
  also have "\<dots> = (\<Sum>k = t..<m. c ^ (k - t) * f k)"
    using discounted_sum_step[OF step.hyps(2), of c f] by simp
  finally show ?case .
qed

text \<open>
  Claim C2. For reward, value and done arrays of one length \<open>n \<ge> 1\<close>, the advantage
  computation of \<open>learn\<close> returns an array of length \<open>n\<close> whose last entry is the zero it
  was filled with (whatever the array is filled with, the loop leaves its last entry as
  it was), and whose entry \<open>t < n - 1\<close> is
  \<open>delta_t + gamma * lambda * advantage[t + 1]\<close>, which is the discounted sum of the TD
  residuals \<open>delta_t, ..., delta_(n-2)\<close>.
\<close>

theorem gae_recursion:
  assumes n: "1 \<le> n"
    and len: "length reward = n" "length value = n" "length done = n"
  shows "\<exists>advantage.
     compute_advantage g lam reward value done = Inr advantage \<and>
     length advantage = n \<and>
     advantage ! (n - 1) = 0 \<and>
     (\<forall>t<n - 1. advantage ! t =
        td_residual g reward value done t + g * lam * advantage ! (t + 1)) \<and>
     (\<forall>t<n - 1. advantage ! t =
        (\<Sum>k = t..<n - 1. (g * lam) ^ (k - t) * td_residual g reward value done k)) \<and>
     (\<forall>prefill. length prefill = n \<longrightarrow>
        (\<exists>adv. gae_loop g lam reward value done (n - 1) prefill 0 = Inr adv \<and>
               adv ! (n - 1) = prefill ! (n - 1)))"
proof -
  have lt: "n - 1 < n" using n by simp
  from gae_loop_spec[OF len lt, of "replicate n 0" g lam 0]
  obtain adv where r: "gae_loop g lam reward value done (n - 1) (replicate n 0) 0 = Inr adv"
    and l: "length adv = n"
    and keep: "\<forall>i. n - 1 \<le> i \<longrightarrow> adv ! i = replicate n 0 ! i"
    and rec: "\<forall>i<n - 1. adv ! i = td_residual g reward value done i
                 + g * lam * (if Suc i = n - 1 then 0 else adv ! Suc i)"
    by auto
  have c0: "compute_advantage g lam reward value done = Inr adv"
    using r len by (simp add: compute_advantage_def)
  have z: "adv ! (n - 1) = 0" using keep n by simp
  have rec': "\<forall>t<n - 1. adv ! t = td_residual g reward value done t + g * lam * adv ! (t + 1)"
    using rec z by auto
  have cf: "\<forall>t<n - 1. adv ! t =
        (\<Sum>k = t..<n - 1. (g * lam) ^ (k - t) * td_residual g reward value done k)"
    using closed_form[of adv "n - 1" "td_residual g reward value done" "g * lam", OF z] rec'
    by (simp add: mult.assoc)
  have nw: "\<forall>prefill. length prefill = n \<longrightarrow>
        (\<exists>adv. gae_loop g lam reward value done (n - 1) prefill 0 = Inr adv \<and>
               adv ! (n - 1) = prefill ! (n - 1))"
  proof (intro allI impI)
    fix prefill :: "real list" assume "length prefill = n"
    from gae_loop_spec[OF len lt this, of g lam 0]
    show "\<exists>adv. gae_loop g lam reward value done (n - 1) prefill 0 = Inr adv \<and>
               adv ! (n - 1) = prefill ! (n - 1)"
      by auto
  qed
  show ?thesis using c0 l z rec' cf nw by blast
qed

theorem gae_recursion_witness:
  "(1::nat) \<le> 4 \<and> length [1, 1, 1, 1::real] = 4 \<and> length [0, 0, 0, 0::real] = 4 \<and>
   length [False, False, False, True] = 4 \<and>
   (\<exists>advantage.
      compute_advantage (99 / 100) (95 / 100) [1, 1, 1, 1] [0, 0, 0, 0]
        [False, False, False, True] = Inr advantage \<and>
      length advantage = 4 \<and>
      advantage ! 3 = 0 \<and> advantage ! 2 = 1 \<and> advantage ! 1 = 19405 / 10000 \<and>
      advantage ! 0 = 282504025 / 100000000)"
proof -
  let ?r = "[1, 1, 1, 1::real]" and ?v = "[0, 0, 0, 0::real]"
  let ?d = "[False, False, False, True]"
  have h: "(1::nat) \<le> 4" "length ?r = 4" "length ?v = 4" "length ?d = 4" by simp_all
  from gae_recursion[OF h, of "99 / 100" "95 / 100"]
  obtain adv where c: "compute_advantage (99 / 100) (95 / 100) ?r ?v ?d = Inr adv"
    and l: "length adv = 4" and z: "adv ! 3 = 0"
    and rec: "\<forall>t<3. adv ! t =
        td_residual (99 / 100) ?r ?v ?d t + 99 / 100 * (95 / 100) * adv ! (t + 1)"
    by auto
  have z': "adv ! Suc (Suc (Suc 0)) = 0" using z by (simp add: numeral_3_eq_3)
  have a2: "adv ! Suc (Suc 0) = 1"
    using rec[rule_format, of "Suc (Suc 0)"] z' by (simp add: td_residual_def)
  have a1: "adv ! Suc 0 = 19405 / 10000"
    using rec[rule_format, of "Suc 0"] a2 by (simp add: td_residual_def)
  have a0: "adv ! 0 = 282504025 / 100000000"
    using rec[rule_format, of 0] a1 by (simp add: td_residual_def)
  show ?thesis using c l z a2 a1 a0 by (simp add: numeral_2_eq_2)
qed

section \<open>Sampling an action\<close>

lemma sum_list_zip3_nth:
  "length m = length x \<Longrightarrow> length s = length x \<Longrightarrow>
   sum_list (map (\<lambda>(a, b, c). f a b c) (zip m (zip s x))) = (\<Sum>i<length x. f (m ! i) (s ! i) (x ! i))"
proof -
  assume l: "length m = length x" "length s = length x"
  have "map (\<lambda>(a, b, c). f a b c) (zip m (zip s x)) = map (\<lambda>i. f (m ! i) (s ! i) (x ! i)) [0..<length x]"
    using l by (intro nth_equalityI) simp_all
  then show ?thesis by (simp add: sum_list_sum_nth atLeast0LessThan)
qed

lemma sample_normal_unfold:
  "sample_normal net sample state =
     (map (\<lambda>a. 2 * tanh a)
        (sample (fst (forward net state)) (clamp_min (snd (forward net state)) (1 / 10 ^ 6))),
      sum_list (log_prob \<lparr>loc = fst (forward net state),
                          scale = clamp_min (snd (forward net state)) (1 / 10 ^ 6)\<rparr>
         (map (\<lambda>a. 2 * tanh a)
            (sample (fst (forward net state)) (clamp_min (snd (forward net state)) (1 / 10 ^ 6))))),
      \<lparr>loc = fst (forward net state),
       scale = clamp_min (snd (forward net state)) (1 / 10 ^ 6)\<rparr>)"
  by (simp add: sample_normal_def Let_def split_beta)

text \<open>
  Claim C1, as amended. For every state, \<open>sample_normal\<close> draws \<open>raw_action\<close> from the
  Normal distribution of the actor's mean and its standard deviation clamped below at
  \<open>1e-6\<close>, returns the action \<open>2 * tanh(raw_action)\<close>, and returns as \<open>log_prob\<close> the sum
  over the action dimensions of the Normal log-density evaluated at the returned action
  \<open>2 * tanh(raw_action)\<close>, with no correction for the Jacobian of \<open>tanh\<close>. (The source
  rebinds \<^verbatim>\<open>action\<close> before \<^verbatim>\<open>dist.log_prob(action)\<close>; \<open>learn\<close> evaluates the new
  log-density at the stored, squashed actions in the same way.)
\<close>

theorem sample_normal_log_prob:
  assumes f: "forward net state = (mean, std0)"
    and s: "std = clamp_min std0 (1 / 10 ^ 6)"
    and r: "raw_action = sample mean std"
    and l: "length mean = length raw_action" "length std0 = length raw_action"
  shows "sample_normal net sample state =
     (map (\<lambda>a. 2 * tanh a) raw_action,
      joint_log_density mean std (map (\<lambda>a. 2 * tanh a) raw_action),
      \<lparr>loc = mean, scale = std\<rparr>)"
proof -
  have ls: "length std = length raw_action" using s l by (simp add: clamp_min_def)
  have "sum_list (log_prob \<lparr>loc = mean, scale = std\<rparr> (map (\<lambda>a. 2 * tanh a) raw_action)) =
        joint_log_density mean std (map (\<lambda>a. 2 * tanh a) raw_action)"
    using sum_list_zip3_nth[of mean "map (\<lambda>a. 2 * tanh a) raw_action" std normal_log_pdf] l ls
    by (simp add: log_prob_def joint_log_density_def)
  then show ?thesis using f s r by (simp add: sample_normal_unfold)
qed

lemma forward_actor0: "forward actor0 [0] = ([0], [1])"
  by (simp add: forward_def actor0_def Linear_def ReLU_def)


lemma clamp_one: "clamp_min [1] (1 / 10 ^ 6) = [1]" "clamp_min [1] (1 / 1000000) = [1]"
  by (simp_all add: clamp_min_def)

theorem sample_normal_log_prob_witness:
  "forward actor0 [0] = ([0], [1]) \<and> [1] = clamp_min [1] (1 / 10 ^ 6) \<and>
   [2] = fixed_sample [2] [0] [1] \<and> length [0::real] = length [2::real] \<and>
   length [1::real] = length [2::real] \<and>
   sample_normal actor0 (fixed_sample [2]) [0] =
     ([2 * tanh 2], joint_log_density [0] [1] [2 * tanh 2], \<lparr>loc = [0], scale = [1]\<rparr>)"
proof -
  have h: "forward actor0 [0] = ([0], [1])" "[1] = clamp_min [1] (1 / 10 ^ 6)"
    "[2] = fixed_sample [2] [0] [1]" "length [0::real] = length [2::real]"
    "length [1::real] = length [2::real]"
    by (simp_all add: forward_actor0 clamp_min_def fixed_sample_def)
  from sample_normal_log_prob[where net = actor0 and state = "[0]" and mean = "[0]"
      and ?std0.0 = "[1]" and std = "[1]" and raw_action = "[2]"
      and sample = "fixed_sample [2]", OF h]
  show ?thesis using h by simp
qed

lemma two_tanh_sq_less: "(2 * tanh (2::real))\<^sup>2 < 4"
proof -
  have "\<bar>tanh (2::real)\<bar> < 1"
    using tanh_real_lt_1[of 2] tanh_real_gt_neg1[of 2] by simp
  then have "(tanh (2::real))\<^sup>2 < 1" by (simp add: abs_square_less_1)
  then show ?thesis by (simp add: power_mult_distrib)
qed

text \<open>
  The claim as stated, with the log-density taken at the raw sample, fails: for mean
  \<open>0\<close>, standard deviation \<open>1\<close> and the draw \<open>2\<close>, the value returned differs from the
  log-density at \<open>2\<close>.
\<close>

theorem sample_normal_log_prob_counterexample:
  "forward actor0 [0] = ([0], [1]) \<and> clamp_min [1] (1 / 10 ^ 6) = [1] \<and>
   fixed_sample [2] [0] [1] = [2] \<and>
   fst (snd (sample_normal actor0 (fixed_sample [2]) [0])) \<noteq> joint_log_density [0] [1] [2]"
proof -
  have "fst (snd (sample_normal actor0 (fixed_sample [2]) [0])) =
        normal_log_pdf 0 1 (2 * tanh 2)"
    by (simp add: sample_normal_unfold forward_actor0 clamp_one fixed_sample_def log_prob_def)
  moreover have "joint_log_density [0] [1] [2] = normal_log_pdf 0 1 2"
    by (simp add: joint_log_density_def)
  moreover have "normal_log_pdf 0 1 (2 * tanh 2) \<noteq> normal_log_pdf 0 1 2"
    using two_tanh_sq_less by (simp add: normal_log_pdf_def)
  ultimately show ?thesis
    by (simp add: forward_actor0 clamp_one fixed_sample_def)
qed

lemma sample_normal_bounded:
  "a \<in> set (fst (sample_normal net sample state)) \<Longrightarrow> - 2 \<le> a \<and> a \<le> 2"
proof -
  have b: "- 2 \<le> 2 * tanh x \<and> 2 * tanh x \<le> 2" for x :: real
    using tanh_real_lt_1[of x] tanh_real_gt_neg1[of x] by simp
  show "a \<in> set (fst (sample_normal net sample state)) \<Longrightarrow> - 2 \<le> a \<and> a \<le> 2"
    using b by (auto simp: sample_normal_unfold)
qed

text \<open>
  Claim C9. Every component of the action that \<open>sample_normal\<close> returns lies in
  \<open>[-2, 2]\<close>; \<open>choose_action\<close> returns that action.
\<close>

theorem action_bounded:
  fixes net :: "'o ActorNetwork" and ag :: "'o Agent"
  shows
  "(\<forall>a \<in> set (fst (sample_normal net sample state)). - 2 \<le> a \<and> a \<le> 2) \<and>
   fst (choose_action ag sample observation) = fst (sample_normal (actor ag) sample observation) \<and>
   (\<forall>a \<in> set (fst (choose_action ag sample observation)). - 2 \<le> a \<and> a \<le> 2)"
proof -
  have 2: "fst (choose_action ag sample observation) = fst (sample_normal (actor ag) sample observation)"
    by (simp add: choose_action_def Let_def split_beta)
  show ?thesis using sample_normal_bounded 2 by metis
qed

theorem action_bounded_witness:
  "fst (choose_action agent3 (fixed_sample [2]) [0]) = [2 * tanh 2] \<and>
   - 2 \<le> 2 * tanh (2::real) \<and> 2 * tanh (2::real) \<le> 2"
proof -
  have a: "actor agent3 = actor0" by (simp add: agent3_def remember_def Agent_init_def)
  have "fst (sample_normal actor0 (fixed_sample [2]) [0]) = [2 * tanh 2]"
    by (simp add: sample_normal_unfold forward_actor0 clamp_one fixed_sample_def)
  with action_bounded[where net = actor0 and sample = "fixed_sample [2]" and state = "[0]"
      and ag = agent3 and observation = "[0]"] a
  show ?thesis by simp
qed

section \<open>Normalising the advantages\<close>













section \<open>What learn changes, and that it returns\<close>

lemma index_arr_ok:
  "set batch \<subseteq> {..<length arr} \<Longrightarrow> index_arr arr batch = Inr (map (\<lambda>i. arr ! i) batch)"
  by (auto simp: index_arr_def list_all_iff)

lemma index_arr_length: "index_arr arr batch = Inr xs \<Longrightarrow> length xs = length batch"
  by (auto simp: index_arr_def split: if_splits)

lemma update_batch_frame:
  "update_batch opt state_arr action_arr old_prob_arr advantage batch ag = Inr ag' \<Longrightarrow>
   \<exists>a c. ag' = ag\<lparr>actor := a, critic := c\<rparr>"
  by (auto simp: update_batch_def Let_def split: sum.splits)

lemma batch_loop_frame:
  "batch_loop opt state_arr action_arr old_prob_arr advantage batches ag = Inr ag' \<Longrightarrow>
   \<exists>a c. ag' = ag\<lparr>actor := a, critic := c\<rparr>"
proof (induction batches arbitrary: ag)
  case Nil
  then have "ag' = ag\<lparr>actor := actor ag, critic := critic ag\<rparr>" by simp
  then show ?case by blast
next
  case (Cons batch batches)
  from Cons.prems obtain ag1 where
    1: "update_batch opt state_arr action_arr old_prob_arr advantage batch ag = Inr ag1"
    and 2: "batch_loop opt state_arr action_arr old_prob_arr advantage batches ag1 = Inr ag'"
    by (auto split: sum.splits)
  from update_batch_frame[OF 1] obtain a c where "ag1 = ag\<lparr>actor := a, critic := c\<rparr>" by blast
  moreover from Cons.IH[OF 2] obtain a' c' where "ag' = ag1\<lparr>actor := a', critic := c'\<rparr>" by blast
  ultimately have "ag' = ag\<lparr>actor := a', critic := c'\<rparr>" by simp
  then show ?case by blast
qed

lemma epoch_frame:
  "epoch opt shuffle ag = Inr ag' \<Longrightarrow> \<exists>a c. ag' = ag\<lparr>actor := a, critic := c\<rparr>"
  by (auto simp: epoch_def split: sum.splits dest: batch_loop_frame)

lemma epoch_loop_frame:
  "epoch_loop opt rng k left ag = Inr ag' \<Longrightarrow> \<exists>a c. ag' = ag\<lparr>actor := a, critic := c\<rparr>"
proof (induction left arbitrary: k ag)
  case 0
  then have "ag' = ag\<lparr>actor := actor ag, critic := critic ag\<rparr>" by simp
  then show ?case by blast
next
  case (Suc left)
  from Suc.prems obtain ag1 where
    1: "epoch opt (rng k) ag = Inr ag1"
    and 2: "epoch_loop opt rng (Suc k) left ag1 = Inr ag'"
    by (auto split: sum.splits)
  from epoch_frame[OF 1] obtain a c where "ag1 = ag\<lparr>actor := a, critic := c\<rparr>" by blast
  moreover from Suc.IH[OF 2] obtain a' c' where "ag' = ag1\<lparr>actor := a', critic := c'\<rparr>" by blast
  ultimately have "ag' = ag\<lparr>actor := a', critic := c'\<rparr>" by simp
  then show ?case by blast
qed

lemma learn_frame:
  assumes "learn opt rng ag = Inr ag'"
  shows "\<exists>a c. ag' = ag\<lparr>actor := a, critic := c, memory := clear_memory (memory ag)\<rparr>"
proof -
  from assms obtain ag1 where 1: "epoch_loop opt rng 0 (n_epochs ag) ag = Inr ag1"
    and 2: "ag' = ag1\<lparr>memory := clear_memory (memory ag1)\<rparr>"
    by (auto simp: learn_def split: sum.splits)
  from epoch_loop_frame[OF 1] obtain a c where "ag1 = ag\<lparr>actor := a, critic := c\<rparr>" by blast
  with 2 have "ag' = ag\<lparr>actor := a, critic := c, memory := clear_memory (memory ag)\<rparr>" by simp
  then show ?thesis by blast
qed

lemma aligned_init: "aligned (PPOMemory_init b)"
  by (simp add: aligned_def PPOMemory_init_def)

lemma aligned_store:
  "aligned mem \<Longrightarrow> aligned (store_memory mem state action prob val reward done)"
  by (simp add: aligned_def store_memory_def)

lemma aligned_clear: "aligned (clear_memory mem)"
  by (simp add: aligned_def clear_memory_def)

lemma clear_memory_empty:
  "states (clear_memory mem) = []" "actions (clear_memory mem) = []"
  "probs (clear_memory mem) = []" "vals (clear_memory mem) = []"
  "rewards (clear_memory mem) = []" "dones (clear_memory mem) = []"
  "batch_size (clear_memory mem) = batch_size mem"
  by (simp_all add: clear_memory_def)

text \<open>\<open>learn\<close> returns for every aligned buffer, positive minibatch size and permuting shuffles.\<close>

lemma compute_advantage_ok:
  assumes "length value = length reward" "length done = length reward"
  shows "\<exists>adv. compute_advantage g lam reward value done = Inr adv \<and> length adv = length reward"
proof (cases "length reward")
  case 0
  then show ?thesis by (simp add: compute_advantage_def)
next
  case (Suc m)
  then have lt: "length reward - 1 < length reward" by simp
  from gae_loop_spec[OF refl assms lt, of "replicate (length reward) 0" g lam 0]
  show ?thesis by (auto simp: compute_advantage_def)
qed

lemma length_normalize_advantage: "length (normalize_advantage adv) = length adv"
  by (simp add: normalize_advantage_def)

lemma update_batch_ok:
  assumes "set batch \<subseteq> {..<n}" "length state_arr = n" "length action_arr = n"
    "length old_prob_arr = n" "length advantage = n"
  shows "\<exists>a c. update_batch opt state_arr action_arr old_prob_arr advantage batch ag =
           Inr (ag\<lparr>actor := a, critic := c\<rparr>)"
  using assms by (simp add: update_batch_def index_arr_ok Let_def) blast

lemma batch_loop_ok:
  assumes "length state_arr = n" "length action_arr = n"
    "length old_prob_arr = n" "length advantage = n"
  shows "\<forall>batch \<in> set batches. set batch \<subseteq> {..<n} \<Longrightarrow>
    \<exists>a c. batch_loop opt state_arr action_arr old_prob_arr advantage batches ag =
           Inr (ag\<lparr>actor := a, critic := c\<rparr>)"
proof (induction batches arbitrary: ag)
  case Nil
  have "ag = ag\<lparr>actor := actor ag, critic := critic ag\<rparr>" by simp
  then show ?case by (metis batch_loop.simps(1))
next
  case (Cons batch batches)
  from Cons.prems have b: "set batch \<subseteq> {..<n}" by simp
  from update_batch_ok[OF b assms, of opt ag] obtain a c where
    1: "update_batch opt state_arr action_arr old_prob_arr advantage batch ag =
           Inr (ag\<lparr>actor := a, critic := c\<rparr>)" by blast
  from Cons.IH[of "ag\<lparr>actor := a, critic := c\<rparr>"] Cons.prems obtain a' c' where
    2: "batch_loop opt state_arr action_arr old_prob_arr advantage batches (ag\<lparr>actor := a, critic := c\<rparr>) =
           Inr (ag\<lparr>actor := a, critic := c\<rparr>\<lparr>actor := a', critic := c'\<rparr>)" by auto
  have "batch_loop opt state_arr action_arr old_prob_arr advantage (batch # batches) ag =
        Inr (ag\<lparr>actor := a', critic := c'\<rparr>)"
    using 1 2 by simp
  then show ?case by blast
qed

lemma epoch_ok:
  assumes al: "aligned (memory ag)" and b: "1 \<le> batch_size (memory ag)"
    and perm: "mset (shuffle [0..<length (states (memory ag))]) = mset [0..<length (states (memory ag))]"
  shows "\<exists>a c. epoch opt shuffle ag = Inr (ag\<lparr>actor := a, critic := c\<rparr>)"
proof -
  define mem where "mem = memory ag"
  define n where "n = length (states mem)"
  define bs where "bs = map (\<lambda>k. take (batch_size mem) (drop (k * batch_size mem)
                      (shuffle [0..<n])))
            [0..<(n + batch_size mem - 1) div batch_size mem]"
  have gb: "generate_batches mem shuffle =
     Inr (states mem, actions mem, probs mem, vals mem, rewards mem, dones mem, bs)"
    using generate_batches_explicit[of mem shuffle] b by (simp add: mem_def bs_def n_def)
  have lens: "length (actions mem) = n" "length (probs mem) = n" "length (vals mem) = n"
    "length (rewards mem) = n" "length (dones mem) = n"
    using al by (simp_all add: aligned_def mem_def n_def)
  have sub: "\<forall>batch \<in> set bs. set batch \<subseteq> {..<n}"
  proof
    fix batch assume "batch \<in> set bs"
    then have "set batch \<subseteq> set (shuffle [0..<n])"
      by (auto simp: bs_def dest: in_set_takeD in_set_dropD)
    also have "\<dots> = {0..<n}" using perm by (metis mem_def n_def mset_eq_setD set_upt)
    finally show "set batch \<subseteq> {..<n}" by auto
  qed
  from compute_advantage_ok[of "vals mem" "rewards mem" "dones mem" "gamma ag" "gae_lambda ag"] lens
  obtain adv where ca: "compute_advantage (gamma ag) (gae_lambda ag) (rewards mem) (vals mem) (dones mem) = Inr adv"
    and la: "length adv = n" by auto
  from batch_loop_ok[of "states mem" n "actions mem" "probs mem" "normalize_advantage adv" bs opt ag]
    lens la sub
  obtain a c where "batch_loop opt (states mem) (actions mem) (probs mem) (normalize_advantage adv) bs ag =
           Inr (ag\<lparr>actor := a, critic := c\<rparr>)"
    by (auto simp: n_def length_normalize_advantage)
  then have "epoch opt shuffle ag = Inr (ag\<lparr>actor := a, critic := c\<rparr>)"
    using gb ca by (simp add: epoch_def mem_def)
  then show ?thesis by blast
qed

lemma epoch_loop_ok:
  assumes perm: "\<forall>k. mset (rng k [0..<n]) = mset [0..<n]"
  shows "aligned (memory ag) \<Longrightarrow> 1 \<le> batch_size (memory ag) \<Longrightarrow>
     length (states (memory ag)) = n \<Longrightarrow>
     \<exists>a c. epoch_loop opt rng k left ag = Inr (ag\<lparr>actor := a, critic := c\<rparr>)"
proof (induction left arbitrary: k ag)
  case 0
  have "ag = ag\<lparr>actor := actor ag, critic := critic ag\<rparr>" by simp
  then show ?case by (metis epoch_loop.simps(1))
next
  case (Suc left)
  from epoch_ok[OF Suc.prems(1,2), of "rng k" opt] perm Suc.prems(3)
  obtain a c where 1: "epoch opt (rng k) ag = Inr (ag\<lparr>actor := a, critic := c\<rparr>)" by auto
  from Suc.IH[of "ag\<lparr>actor := a, critic := c\<rparr>" "Suc k"] Suc.prems
  obtain a' c' where 2: "epoch_loop opt rng (Suc k) left (ag\<lparr>actor := a, critic := c\<rparr>) =
      Inr (ag\<lparr>actor := a, critic := c\<rparr>\<lparr>actor := a', critic := c'\<rparr>)" by auto
  have "epoch_loop opt rng k (Suc left) ag = Inr (ag\<lparr>actor := a', critic := c'\<rparr>)"
    using 1 2 by simp
  then show ?case by blast
qed

lemma learn_ok:
  assumes "aligned (memory ag)" "1 \<le> batch_size (memory ag)"
    "\<forall>k. mset (rng k [0..<length (states (memory ag))]) = mset [0..<length (states (memory ag))]"
  shows "\<exists>a c. learn opt rng ag =
     Inr (ag\<lparr>actor := a, critic := c, memory := clear_memory (memory ag)\<rparr>)"
proof -
  from epoch_loop_ok[where rng = rng and n = "length (states (memory ag))" and ag = ag
      and opt = opt and k = 0 and left = "n_epochs ag", OF assms(3) assms(1,2) refl]
  obtain a c where "epoch_loop opt rng 0 (n_epochs ag) ag = Inr (ag\<lparr>actor := a, critic := c\<rparr>)"
    by blast
  then have "learn opt rng ag = Inr (ag\<lparr>actor := a, critic := c, memory := clear_memory (memory ag)\<rparr>)"
    by (simp add: learn_def)
  then show ?thesis by blast
qed

section \<open>The critic loss of a batch\<close>



section \<open>The buffer invariant\<close>

lemma reachable_aligned: "reachable ag \<Longrightarrow> aligned (memory ag)"
proof (induction rule: reachable.induct)
  case (init g lam clip b epochs ecoef a c)
  show ?case by (simp add: Agent_init_def aligned_init)
next
  case (remember ag state action prob val reward d)
  then show ?case by (simp add: remember_def aligned_store)
next
  case (normalize ag reward)
  then show ?case by (simp add: normalize_reward_def Let_def)
next
  case (learn ag opt rng ag')
  from learn_frame[OF learn.hyps(2)] show ?case by (auto simp: aligned_clear)
qed

text \<open>
  Claim C5. The six sequences of the buffer have one length after construction, after
  every \<open>store_memory\<close> (and \<open>remember\<close>) on an aligned buffer and after every
  \<open>clear_memory\<close>, hence in every agent the operations can produce; the epochs of \<open>learn\<close>
  leave the buffer as it is; and a call of \<open>learn\<close> that returns leaves all six sequences
  empty.
\<close>

theorem buffer_invariant:
  "aligned (PPOMemory_init b) \<and>
   (aligned mem \<longrightarrow> aligned (store_memory mem state action prob val reward d)) \<and>
   aligned (clear_memory mem) \<and>
   (aligned (memory ag) \<longrightarrow> aligned (memory (remember ag state action prob val reward d))) \<and>
   (reachable ag \<longrightarrow> aligned (memory ag)) \<and>
   (epoch_loop opt rng k left ag = Inr ag1 \<longrightarrow> memory ag1 = memory ag) \<and>
   (learn opt rng ag = Inr ag' \<longrightarrow>
      memory ag' = clear_memory (memory ag) \<and>
      states (memory ag') = [] \<and> actions (memory ag') = [] \<and> probs (memory ag') = [] \<and>
      vals (memory ag') = [] \<and> rewards (memory ag') = [] \<and> dones (memory ag') = [] \<and>
      aligned (memory ag'))"
proof -
  have 1: "epoch_loop opt rng k left ag = Inr ag1 \<longrightarrow> memory ag1 = memory ag"
    using epoch_loop_frame[of opt rng k left ag ag1] by auto
  have 2: "learn opt rng ag = Inr ag' \<longrightarrow> memory ag' = clear_memory (memory ag)"
    using learn_frame[of opt rng ag ag'] by auto
  show ?thesis
    using 1 2 aligned_init aligned_store aligned_clear reachable_aligned
    by (auto simp: remember_def clear_memory_empty)
qed

lemma agent3_memory: "memory agent3 = mem3"
  by (simp add: agent3_def mem3_def remember_def Agent_init_def)

lemma aligned_mem3: "aligned mem3"
  by (simp add: aligned_def mem3_fields)

lemma rotate_rng_perm: "mset (rotate_rng k xs) = mset xs"
proof -
  define j where "j = k mod length xs"
  have "mset (rotate k xs) = mset (drop j xs @ take j xs)"
    by (simp only: rotate_drop_take j_def)
  also have "\<dots> = mset (take j xs) + mset (drop j xs)" by (simp add: union_commute)
  also have "\<dots> = mset (take j xs @ drop j xs)" by (simp only: mset_append)
  also have "\<dots> = mset xs" by (simp only: append_take_drop_id)
  finally show ?thesis by (simp add: rotate_rng_def)
qed

lemma learn_agent3:
  "\<exists>a c. learn keep_nets rotate_rng agent3 =
     Inr (agent3\<lparr>actor := a, critic := c, memory := clear_memory (memory agent3)\<rparr>)"
  by (rule learn_ok) (simp_all add: agent3_memory aligned_mem3 mem3_fields rotate_rng_perm)

lemma reachable_agent3: "reachable agent3"
  unfolding agent3_def by (intro reachable.remember reachable.init)

theorem buffer_invariant_witness:
  "aligned mem3 \<and> aligned (store_memory mem3 [3] [0] 0 0 1 False) \<and>
   reachable agent3 \<and>
   aligned (memory agent3) \<and> aligned (memory (remember agent3 [3] [0] 0 0 1 False)) \<and>
   (\<exists>ag'. learn keep_nets rotate_rng agent3 = Inr ag' \<and>
      states (memory agent3) = [[0], [1], [2]] \<and>
      states (memory ag') = [] \<and> actions (memory ag') = [] \<and> probs (memory ag') = [] \<and>
      vals (memory ag') = [] \<and> rewards (memory ag') = [] \<and> dones (memory ag') = [])"
proof -
  from learn_agent3 obtain ag' where l: "learn keep_nets rotate_rng agent3 = Inr ag'" by blast
  have a: "aligned mem3" "reachable agent3" by (simp_all add: aligned_mem3 reachable_agent3)
  from buffer_invariant[where mem = mem3 and ag = agent3 and opt = keep_nets
      and rng = rotate_rng and ag' = ag' and state = "[3]" and action = "[0]" and prob = 0
      and val = 0 and reward = 1 and d = False] a l
  show ?thesis by (simp add: agent3_memory mem3_fields clear_memory_empty)
qed

section \<open>One advantage array for all epochs\<close>

lemma generate_batches_arrays:
  "generate_batches mem shuffle = Inr (s, a, p, v, r, d, bs) \<Longrightarrow>
   s = states mem \<and> a = actions mem \<and> p = probs mem \<and> v = vals mem \<and> r = rewards mem \<and>
   d = dones mem"
  by (auto simp: generate_batches_def Let_def split: sum.splits)

lemma epoch_eq_given: "epoch opt shuffle ag = epoch_given opt shuffle (raw_advantage ag) ag"
proof (cases "generate_batches (memory ag) shuffle")
  case (Inl e)
  then show ?thesis by (simp add: epoch_def epoch_given_def)
next
  case (Inr t)
  obtain s a p v r d bs where t: "t = (s, a, p, v, r, d, bs)" by (cases t) auto
  from generate_batches_arrays[OF Inr[unfolded t]] show ?thesis
    using Inr t by (simp add: epoch_def epoch_given_def raw_advantage_def)
qed

lemma raw_advantage_frame: "raw_advantage (ag\<lparr>actor := a, critic := c\<rparr>) = raw_advantage ag"
  by (simp add: raw_advantage_def)

lemma epoch_loop_eq_given:
  "epoch_loop opt rng k left ag = epoch_loop_given opt rng (raw_advantage ag) k left ag"
proof (induction left arbitrary: k ag)
  case 0
  show ?case by simp
next
  case (Suc left)
  show ?case
  proof (cases "epoch opt (rng k) ag")
    case (Inl e)
    then show ?thesis using epoch_eq_given[of opt "rng k" ag] by simp
  next
    case (Inr ag1)
    from epoch_frame[OF Inr] obtain a c where "ag1 = ag\<lparr>actor := a, critic := c\<rparr>" by blast
    then have "raw_advantage ag1 = raw_advantage ag" by (simp add: raw_advantage_frame)
    then show ?thesis
      using Inr epoch_eq_given[of opt "rng k" ag] Suc.IH[of "Suc k" ag1] by simp
  qed
qed

text \<open>
  Claim C6. \<open>learn\<close>, which recomputes the raw advantage array in every epoch, is the
  program that computes it once before the first epoch and uses that array in every
  epoch: each epoch computes \<open>raw_advantage\<close> of the agent, and after any number of epochs
  that value is the one of the start. Between the epochs only the shuffle \<open>rng k\<close> (and
  the networks) differ.
\<close>

theorem advantage_same_every_epoch:
  "learn opt rng ag = learn_advantage_once opt rng ag \<and>
   epoch opt shuffle ag = epoch_given opt shuffle (raw_advantage ag) ag \<and>
   (epoch_loop opt rng 0 k ag = Inr ag1 \<longrightarrow> raw_advantage ag1 = raw_advantage ag)"
proof -
  have 1: "learn opt rng ag = learn_advantage_once opt rng ag"
    by (simp add: learn_def learn_advantage_once_def epoch_loop_eq_given Let_def)
  have 3: "epoch_loop opt rng 0 k ag = Inr ag1 \<longrightarrow> raw_advantage ag1 = raw_advantage ag"
    using epoch_loop_frame[of opt rng 0 k ag ag1] by (auto simp: raw_advantage_frame)
  show ?thesis using 1 3 epoch_eq_given by blast
qed

lemma agent3_hyper: "gamma agent3 = 99 / 100" "gae_lambda agent3 = 95 / 100" "n_epochs agent3 = 2"
  by (simp_all add: agent3_def remember_def Agent_init_def)

lemma raw_advantage_agent3:
  "raw_advantage agent3 = Inr [3881 / 2000, 1, 0]"
  unfolding raw_advantage_def agent3_memory mem3_fields agent3_hyper
  by (simp add: compute_advantage_def numeral_2_eq_2)

theorem advantage_same_every_epoch_witness:
  "\<exists>ag1. epoch_loop keep_nets rotate_rng 0 1 agent3 = Inr ag1 \<and>
     raw_advantage agent3 = Inr [3881 / 2000, 1, 0] \<and>
     raw_advantage ag1 = Inr [3881 / 2000, 1, 0] \<and>
     learn keep_nets rotate_rng agent3 = learn_advantage_once keep_nets rotate_rng agent3"
proof -
  have "\<exists>a c. epoch_loop keep_nets rotate_rng 0 1 agent3 = Inr (agent3\<lparr>actor := a, critic := c\<rparr>)"
    by (rule epoch_loop_ok[where n = 3])
      (simp_all add: agent3_memory aligned_mem3 mem3_fields rotate_rng_perm)
  then obtain ag1 where e: "epoch_loop keep_nets rotate_rng 0 1 agent3 = Inr ag1" by blast
  from advantage_same_every_epoch[where opt = keep_nets and rng = rotate_rng and ag = agent3
      and k = 1 and ?ag1.0 = ag1] e raw_advantage_agent3
  show ?thesis by simp
qed

section \<open>The reward statistics and learn\<close>

lemma update_batch_stats:
  "update_batch opt sa aa pa adv batch (ag\<lparr>running_mean := m, running_var := v\<rparr>) =
   map_sum id (\<lambda>a. a\<lparr>running_mean := m, running_var := v\<rparr>)
     (update_batch opt sa aa pa adv batch ag)"
  by (simp add: update_batch_def Let_def sum.case_eq_if)

lemma batch_loop_stats:
  "batch_loop opt sa aa pa adv batches (ag\<lparr>running_mean := m, running_var := v\<rparr>) =
   map_sum id (\<lambda>a. a\<lparr>running_mean := m, running_var := v\<rparr>)
     (batch_loop opt sa aa pa adv batches ag)"
proof (induction batches arbitrary: ag)
  case Nil
  show ?case by simp
next
  case (Cons batch batches)
  show ?case
    by (cases "update_batch opt sa aa pa adv batch ag") (simp_all add: update_batch_stats Cons.IH)
qed

lemma epoch_stats:
  "epoch opt shuffle (ag\<lparr>running_mean := m, running_var := v\<rparr>) =
   map_sum id (\<lambda>a. a\<lparr>running_mean := m, running_var := v\<rparr>) (epoch opt shuffle ag)"
proof (cases "generate_batches (memory ag) shuffle")
  case (Inl e)
  then show ?thesis by (simp add: epoch_def)
next
  case (Inr t)
  obtain s a p vs r d bs where t: "t = (s, a, p, vs, r, d, bs)" by (cases t) auto
  show ?thesis
  proof (cases "compute_advantage (gamma ag) (gae_lambda ag) r vs d")
    case (Inl e)
    then show ?thesis using Inr t by (simp add: epoch_def)
  next
    case adv: (Inr advantage)
    then show ?thesis using Inr t by (simp add: epoch_def batch_loop_stats)
  qed
qed

lemma epoch_loop_stats:
  "epoch_loop opt rng k left (ag\<lparr>running_mean := m, running_var := v\<rparr>) =
   map_sum id (\<lambda>a. a\<lparr>running_mean := m, running_var := v\<rparr>) (epoch_loop opt rng k left ag)"
proof (induction left arbitrary: k ag)
  case 0
  show ?case by simp
next
  case (Suc left)
  show ?case
    by (cases "epoch opt (rng k) ag") (simp_all add: epoch_stats Suc.IH)
qed

lemma learn_stats:
  "learn opt rng (ag\<lparr>running_mean := m, running_var := v\<rparr>) =
   map_sum id (\<lambda>a. a\<lparr>running_mean := m, running_var := v\<rparr>) (learn opt rng ag)"
  by (cases "epoch_loop opt rng 0 (n_epochs ag) ag") (simp_all add: learn_def epoch_loop_stats)

lemma normalize_reward_frame:
  "snd (normalize_reward ag reward) =
   ag\<lparr>running_mean := running_mean (snd (normalize_reward ag reward)),
      running_var := running_var (snd (normalize_reward ag reward))\<rparr>"
  by (simp add: normalize_reward_def Let_def)

text \<open>
  Claim C7. \<open>learn\<close> does not read the running reward statistics: from two agents that
  differ only in \<open>running_mean\<close> and \<open>running_var\<close> it raises the same error or returns
  agents with the same networks and the same buffer, the statistics left as they were;
  in particular a call of \<open>normalize_reward\<close> before \<open>learn\<close> changes nothing of what
  \<open>learn\<close> does to the networks and the buffer.
\<close>

theorem learn_ignores_reward_statistics:
  "learn opt rng (ag\<lparr>running_mean := m, running_var := v\<rparr>) =
     map_sum id (\<lambda>a. a\<lparr>running_mean := m, running_var := v\<rparr>) (learn opt rng ag) \<and>
   map_sum id (\<lambda>a. (actor a, critic a, memory a))
       (learn opt rng (ag\<lparr>running_mean := m, running_var := v\<rparr>)) =
     map_sum id (\<lambda>a. (actor a, critic a, memory a)) (learn opt rng ag) \<and>
   map_sum id (\<lambda>a. (actor a, critic a, memory a))
       (learn opt rng (snd (normalize_reward ag reward))) =
     map_sum id (\<lambda>a. (actor a, critic a, memory a)) (learn opt rng ag)"
proof -
  have 2: "map_sum id (\<lambda>a. (actor a, critic a, memory a))
       (learn opt rng (ag\<lparr>running_mean := m', running_var := v'\<rparr>)) =
     map_sum id (\<lambda>a. (actor a, critic a, memory a)) (learn opt rng ag)" for m' v'
    unfolding learn_stats by (cases "learn opt rng ag") simp_all
  define ag2 where "ag2 = snd (normalize_reward ag reward)"
  have "ag2 = ag\<lparr>running_mean := running_mean ag2, running_var := running_var ag2\<rparr>"
    unfolding ag2_def by (rule normalize_reward_frame)
  then have "learn opt rng ag2 =
      learn opt rng (ag\<lparr>running_mean := running_mean ag2, running_var := running_var ag2\<rparr>)"
    by (rule arg_cong)
  then have 3: "map_sum id (\<lambda>a. (actor a, critic a, memory a)) (learn opt rng ag2) =
     map_sum id (\<lambda>a. (actor a, critic a, memory a)) (learn opt rng ag)"
    using 2[where m' = "running_mean ag2" and v' = "running_var ag2"] by (simp only:)
  show ?thesis
  proof (intro conjI)
    show "learn opt rng (ag\<lparr>running_mean := m, running_var := v\<rparr>) =
     map_sum id (\<lambda>a. a\<lparr>running_mean := m, running_var := v\<rparr>) (learn opt rng ag)"
      by (rule learn_stats)
    show "map_sum id (\<lambda>a. (actor a, critic a, memory a))
       (learn opt rng (ag\<lparr>running_mean := m, running_var := v\<rparr>)) =
     map_sum id (\<lambda>a. (actor a, critic a, memory a)) (learn opt rng ag)"
      by (rule 2)
    show "map_sum id (\<lambda>a. (actor a, critic a, memory a))
       (learn opt rng (snd (normalize_reward ag reward))) =
     map_sum id (\<lambda>a. (actor a, critic a, memory a)) (learn opt rng ag)"
      using 3 by (simp only: ag2_def)
  qed
qed

section \<open>The assertion of normalize_reward and the errors of learn\<close>

lemma index_arr_error: "index_arr arr batch = Inl e \<Longrightarrow> e = IndexError"
  by (simp add: index_arr_def split: if_splits)













section \<open>The iterations of learn and the critic loss\<close>











end
